theory Spec2Isabelle
  imports Complex_Main "HOL-Library.List_Lexorder" "HOL-Library.Product_Lexorder"
begin

section \<open>Strings, the runtime and the libraries\<close>

text \<open>
  A Python \<open>str\<close> is a sequence of Unicode code points, so a string is a list of
  naturals; \<open>str ''abc''\<close> writes an ASCII literal. Lists of naturals are ordered
  lexicographically, which is Python's order on strings.
\<close>

type_synonym pystr = "nat list"

definition str :: "string \<Rightarrow> pystr" where
  "str s = map of_char s"

text \<open>
  \<open>logic.py\<close> calls \<open>str.lower\<close>, \<open>unidecode.unidecode\<close> and four functions of
  \<open>rapidfuzz\<close>. None of them is code of the repository, so they are parameters of the
  model: every function below that depends on one of them takes the environment \<open>E\<close>.
  \<open>unidecode\<close> works code point by code point (ASCII is passed through, any other code
  point is replaced by its table entry), so the parameter is its table.
  The similarity functions return Python floats, whose values are rationals.
  The two closing statements of \<open>full_score\<close>,
  \<open>score = (0.6 * tr + 0.2 * fr + 0.2 * jr) * penalty * 100\<close> and \<open>int(round(score))\<close>,
  are double arithmetic followed by a rounding of the double. Exact arithmetic does not
  reproduce them where the exact score is a half-integer, so they are a parameter too:
  \<open>round_score E tr fr jr penalty\<close> is the integer that the two statements yield, as a
  function of the exact quotients \<open>tr\<close>, \<open>fr\<close>, \<open>jr\<close> and \<open>penalty\<close> (each of which the
  code rounds to the nearest double).
\<close>

record env =
  str_lower :: "pystr \<Rightarrow> pystr"
  unidecode_table :: "nat \<Rightarrow> pystr"
  partial_ratio :: "pystr \<Rightarrow> pystr \<Rightarrow> rat"
  token_set_ratio :: "pystr \<Rightarrow> pystr \<Rightarrow> rat"
  ratio :: "pystr \<Rightarrow> pystr \<Rightarrow> rat"
  normalized_similarity :: "pystr \<Rightarrow> pystr \<Rightarrow> rat"
  round_score :: "rat \<Rightarrow> rat \<Rightarrow> rat \<Rightarrow> rat \<Rightarrow> int"

definition ascii_only :: "pystr \<Rightarrow> bool" where
  "ascii_only s = list_all (\<lambda>c. c < 128) s"

definition unidecode :: "env \<Rightarrow> pystr \<Rightarrow> pystr" where
  "unidecode E s = concat (map (\<lambda>c. if c < 128 then [c] else unidecode_table E c) s)"

definition ascii_lower :: "nat \<Rightarrow> nat" where
  "ascii_lower c = (if 65 \<le> c \<and> c \<le> 90 then c + 32 else c)"

text \<open>The contracts of the libraries that the theorems below rely on.\<close>

definition lower_ascii_ok :: "env \<Rightarrow> bool" where
  "lower_ascii_ok E = (\<forall>s. ascii_only s \<longrightarrow> str_lower E s = map ascii_lower s)"

definition unidecode_ascii_ok :: "env \<Rightarrow> bool" where
  "unidecode_ascii_ok E = (\<forall>c. ascii_only (unidecode_table E c))"

definition partial_ratio_ok :: "env \<Rightarrow> bool" where
  "partial_ratio_ok E = (\<forall>a b. 0 \<le> partial_ratio E a b \<and> partial_ratio E a b \<le> 100)"

section \<open>Constants of \<open>logic.py\<close>\<close>

definition AUTO_SCORE :: rat where "AUTO_SCORE = 100"
definition AUTO_SELECT_TH :: int where "AUTO_SELECT_TH = 93"
definition MIN_SCORE_DISPLAY :: rat where "MIN_SCORE_DISPLAY = 70"

definition GENERIC_TOKENS :: "pystr set" where
  "GENERIC_TOKENS = {[1513, 1500], [1492], [1489, 1503], [1489, 1514],
     [1502, 1513, 1508, 1495, 1514], [1488, 1495, 1497], [1488, 1495, 1493, 1514],
     [1491, 1493, 1491], [1491, 1493, 1491, 1492]}"

definition SUFFIX_TOKENS :: "pystr set" where
  "SUFFIX_TOKENS = {[1502, 1497, 1500, 1493, 1488, 1497, 1501], str ''miluyim'',
     str ''miloyim'', str ''mil'', [1504, 1497, 1497, 1491], [1505, 1500, 1493, 1500, 1512],
     [1505, 1500, 1493, 1500, 1512, 1497], [1489, 1497, 1514],
     [1506, 1489, 1493, 1491, 1492], [1506, 1505, 1511, 1497], [1488, 1497, 1513, 1497],
     [1502, 1513, 1512, 1491]}"

section \<open>Regular expressions and string methods\<close>

text \<open>The character class of \<open>_punc_re\<close>: \<open>| \ / ( ) [ ] " '\<close>, geresh, gershayim, \<open>. , -\<close>.\<close>

definition is_punc :: "nat \<Rightarrow> bool" where
  "is_punc c = (c \<in> {34, 39, 40, 41, 44, 45, 46, 47, 91, 92, 93, 124, 1523, 1524})"

text \<open>The class \<open>\s\<close> of a \<open>str\<close> pattern, which is also what \<open>str.strip\<close> removes.\<close>

definition is_space :: "nat \<Rightarrow> bool" where
  "is_space c = ((9 \<le> c \<and> c \<le> 13) \<or> (28 \<le> c \<and> c \<le> 32) \<or> c = 133 \<or> c = 160
     \<or> c = 5760 \<or> (8192 \<le> c \<and> c \<le> 8202) \<or> c = 8232 \<or> c = 8233 \<or> c = 8239
     \<or> c = 8287 \<or> c = 12288)"

text \<open>\<open>re.compile("[...]+").sub(" ", t)\<close>: every maximal run of the class becomes one space.\<close>

function re_sub_space :: "(nat \<Rightarrow> bool) \<Rightarrow> pystr \<Rightarrow> pystr" where
  "re_sub_space P [] = []"
| "re_sub_space P (c # cs) =
     (if P c then 32 # re_sub_space P (dropWhile P cs) else c # re_sub_space P cs)"
  by pat_completeness auto
termination
  by (relation "measure (\<lambda>(P, s). length s)")
     (auto simp: le_imp_less_Suc length_dropWhile_le)

definition strip :: "pystr \<Rightarrow> pystr" where
  "strip s = rev (dropWhile is_space (rev (dropWhile is_space s)))"

text \<open>\<open>re.compile(r"\s+").split(name)\<close>: the pieces between the whitespace runs, the empty
  piece before a leading run and after a trailing run included.\<close>

function re_split_space :: "pystr \<Rightarrow> pystr list" where
  "re_split_space s =
     (let piece = takeWhile (\<lambda>c. \<not> is_space c) s; rest = dropWhile (\<lambda>c. \<not> is_space c) s
      in if rest = [] then [piece] else piece # re_split_space (dropWhile is_space rest))"
  by pat_completeness auto
termination
proof (relation "measure length", simp, goal_cases)
  case (1 s piece rest)
  obtain c cs where rest: "dropWhile (\<lambda>c. \<not> is_space c) s = c # cs"
    using 1 by (cases "dropWhile (\<lambda>c. \<not> is_space c) s") auto
  have sp: "is_space c"
    using rest hd_dropWhile [of "\<lambda>c. \<not> is_space c" s] by auto
  have "length (dropWhile is_space cs) \<le> length cs"
    by (rule length_dropWhile_le)
  with sp have "length (dropWhile is_space (c # cs)) < length (c # cs)"
    by simp
  moreover have "length (c # cs) \<le> length s"
    using length_dropWhile_le [of "\<lambda>c. \<not> is_space c" s] rest by simp
  ultimately show ?case using 1 rest by simp
qed

definition startswith :: "pystr \<Rightarrow> pystr \<Rightarrow> bool" where
  "startswith s p = (take (length p) s = p)"

definition endswith :: "pystr \<Rightarrow> pystr \<Rightarrow> bool" where
  "endswith s p = (length p \<le> length s \<and> drop (length s - length p) s = p)"

text \<open>\<open>sep.join(ts)\<close>\<close>

fun py_join :: "pystr \<Rightarrow> pystr list \<Rightarrow> pystr" where
  "py_join sep [] = []"
| "py_join sep [t] = t"
| "py_join sep (t # ts) = t @ sep @ py_join sep ts"

text \<open>\<open>round(x)\<close> rounds half to even; \<open>int(x)\<close> truncates towards zero.\<close>

definition py_round :: "rat \<Rightarrow> int" where
  "py_round x =
     (let f = \<lfloor>x\<rfloor>; d = x - of_int f
      in if d < 1 / 2 then f else if 1 / 2 < d then f + 1 else if even f then f else f + 1)"

definition py_int :: "rat \<Rightarrow> int" where
  "py_int x = (if 0 \<le> x then \<lfloor>x\<rfloor> else \<lceil>x\<rceil>)"

section \<open>Normalizer and tokenizer\<close>

text \<open>\<open>normalize(txt: str | None)\<close> of the source; \<open>not txt\<close> holds for \<open>None\<close> and for the empty string.\<close>

definition normalize_str :: "env \<Rightarrow> pystr option \<Rightarrow> pystr" where
  "normalize_str E txt =
     (case txt of
        None \<Rightarrow> []
      | Some s \<Rightarrow>
          if s = [] then []
          else let t = str_lower E s;
                   t = re_sub_space is_punc t;
                   t = strip (re_sub_space is_space t)
               in unidecode E t)"

definition clean_token :: "pystr \<Rightarrow> pystr" where
  "clean_token tok =
     (if tok \<in> SUFFIX_TOKENS then []
      else let tok = (if startswith tok (str ''v'') \<and> length tok > 2 then drop 1 tok else tok);
               tok = (if length tok \<ge> 4 \<and> endswith tok (str ''i'') then butlast tok else tok)
           in tok)"

definition tokens :: "pystr \<Rightarrow> pystr list" where
  "tokens name =
     (let tks = map clean_token (re_split_space name)
      in filter (\<lambda>t. t \<noteq> [] \<and> t \<notin> GENERIC_TOKENS) tks)"


section \<open>Token matcher and scorer\<close>

definition fuzzy_eq :: "env \<Rightarrow> pystr \<Rightarrow> pystr \<Rightarrow> bool" where
  "fuzzy_eq E a b = (a = b \<or> normalized_similarity E a b \<ge> 9 / 10)"

text \<open>
  The inner loop of \<open>_fuzzy_jaccard\<close>: the first contact token that is not in \<open>used\<close>
  and is fuzzy-equal to \<open>g\<close>. \<open>used\<close> is a Python set of token strings.
\<close>

fun first_unused :: "env \<Rightarrow> pystr \<Rightarrow> pystr set \<Rightarrow> pystr list \<Rightarrow> pystr option" where
  "first_unused E g used [] = None"
| "first_unused E g used (c # cs) =
     (if c \<in> used then first_unused E g used cs
      else if fuzzy_eq E g c then Some c
      else first_unused E g used cs)"

text \<open>The outer loop, on the state \<open>(matched, used)\<close>.\<close>

fun jaccard_loop :: "env \<Rightarrow> pystr list \<Rightarrow> pystr list \<Rightarrow> nat \<times> pystr set \<Rightarrow> nat \<times> pystr set" where
  "jaccard_loop E [] cs st = st"
| "jaccard_loop E (g # gs) cs (matched, used) =
     (case first_unused E g used cs of
        None \<Rightarrow> jaccard_loop E gs cs (matched, used)
      | Some c \<Rightarrow> jaccard_loop E gs cs (matched + 1, insert c used))"

text \<open>\<open>len(set(xs))\<close> is the number of distinct elements, \<open>length (remdups xs)\<close>.\<close>

definition jaccard_union :: "env \<Rightarrow> pystr list \<Rightarrow> pystr list \<Rightarrow> int" where
  "jaccard_union E gs cs =
     int (length (remdups gs)) + int (length (remdups cs)) - int (fst (jaccard_loop E gs cs (0, {})))"

definition fuzzy_jaccard :: "env \<Rightarrow> pystr list \<Rightarrow> pystr list \<Rightarrow> rat" where
  "fuzzy_jaccard E gs cs =
     (let matched = fst (jaccard_loop E gs cs (0, {}));
          union = jaccard_union E gs cs
      in if union \<noteq> 0 then of_nat matched / of_int union else 1)"

text \<open>
  \<open>full_score\<close> returns the Python int \<open>0\<close>, \<open>AUTO_SCORE\<close> or \<open>int(round(score))\<close>, or
  the float that \<open>fuzz.partial_ratio\<close> returns; the model's result type is \<open>rat\<close>.
  The weighted score and its rounding are \<open>round_score\<close> of the environment.
\<close>

definition full_score :: "env \<Rightarrow> pystr \<Rightarrow> pystr \<Rightarrow> rat" where
  "full_score E g_norm c_norm =
     (if g_norm = [] \<or> c_norm = [] then 0
      else if strip g_norm = strip c_norm then AUTO_SCORE
      else let g_t = tokens g_norm; c_t = tokens c_norm
        in if g_t = c_t then AUTO_SCORE
           else if g_t = [] \<or> c_t = [] then partial_ratio E g_norm c_norm
           else let tr = token_set_ratio E (py_join (str '' '') g_t) (py_join (str '' '') c_t) / 100;
                    fr = ratio E (hd g_t) (hd c_t) / 100;
                    jr = fuzzy_jaccard E g_t c_t;
                    gap = \<bar>int (length g_t) - int (length c_t)\<bar>;
                    penalty = (if gap \<ge> 2
                               then of_nat (min (length g_t) (length c_t))
                                    / of_nat (max (length g_t) (length c_t))
                               else 1)
                in of_int (round_score E tr fr jr penalty))"

text \<open>The two messages of \<open>reason_for\<close>, as code points: "overlap: " and "high match".\<close>

definition reason_for :: "pystr \<Rightarrow> pystr \<Rightarrow> int \<Rightarrow> pystr" where
  "reason_for g_norm c_norm score =
     (let overlap = filter (\<lambda>t. t \<in> set (tokens c_norm)) (tokens g_norm)
      in if overlap \<noteq> [] then [1495, 1508, 1497, 1508, 1492, 58, 32] @ py_join (str '', '') (take 2 overlap)
         else if score \<ge> AUTO_SELECT_TH
           then [1492, 1514, 1488, 1502, 1492, 32, 1490, 1489, 1493, 1492, 1492]
         else [])"

section \<open>Candidate selector and best-score aggregator\<close>

text \<open>
  A row of a table that \<open>load_excel\<close> produced: the columns \<open>NAME_COL\<close>, \<open>PHONE_COL\<close> and
  \<open>norm_name\<close>, all strings. A data frame is the list of its rows.
\<close>

record row =
  full_name :: pystr
  phone :: pystr
  norm_name :: pystr

record candidate =
  contact :: row
  score :: rat
  reason :: pystr

datatype error = ValueError

text \<open>\<open>Series.max()\<close>: \<open>NaN\<close> (here \<open>None\<close>) for an empty series.\<close>

fun series_max :: "rat list \<Rightarrow> rat option" where
  "series_max [] = None"
| "series_max (x # xs) = Some (fold max xs x)"

text \<open>\<open>sort_values(["score", NAME_COL], ascending=[False, True])\<close>, a stable sort.\<close>

definition sort_values :: "(row \<times> rat) list \<Rightarrow> (row \<times> rat) list" where
  "sort_values df = sort_key (\<lambda>(r, s). (- s, full_name r)) df"

definition scored :: "env \<Rightarrow> pystr \<Rightarrow> row list \<Rightarrow> (row \<times> rat) list" where
  "scored E guest_norm contacts_df =
     map (\<lambda>r. (r, full_score E guest_norm (norm_name r))) contacts_df"

definition at_least :: "rat \<Rightarrow> (row \<times> rat) list \<Rightarrow> (row \<times> rat) list" where
  "at_least th df = filter (\<lambda>(r, s). s \<ge> th) df"

text \<open>
  \<open>int(df["score"].max())\<close> raises \<open>ValueError\<close> on \<open>NaN\<close>, that is when the table has
  no rows. When no contact reaches the threshold, \<open>candidates\<close> has no rows,
  \<open>candidates.apply(..., axis=1)\<close> returns an empty frame instead of a series, and the
  assignment of that frame to the single column \<open>reason\<close> raises \<open>ValueError\<close>.
\<close>

definition top_matches :: "env \<Rightarrow> pystr \<Rightarrow> row list \<Rightarrow> error + candidate list" where
  "top_matches E guest_norm contacts_df =
     (if guest_norm = [] then Inr []
      else let df = scored E guest_norm contacts_df
        in case series_max (map snd df) of
             None \<Rightarrow> Inl ValueError
           | Some m \<Rightarrow>
               let max_score = py_int m;
                   candidates =
                     (if of_int max_score = AUTO_SCORE
                      then take 3 (sort_values (at_least 90 df))
                      else let candidates = take 3 (sort_values (at_least MIN_SCORE_DISPLAY df))
                        in if candidates = [] then take 3 (sort_values (at_least 50 df))
                           else candidates)
               in if candidates = [] then Inl ValueError
                  else Inr (map (\<lambda>(r, s). \<lparr>contact = r, score = s,
                                   reason = reason_for guest_norm (norm_name r) (py_int s)\<rparr>)
                              candidates))"

text \<open>\<open>Series.apply(f)\<close>: the first row on which \<open>f\<close> raises ends the call.\<close>

fun series_apply :: "('a \<Rightarrow> error + 'b) \<Rightarrow> 'a list \<Rightarrow> error + 'b list" where
  "series_apply f [] = Inr []"
| "series_apply f (x # xs) =
     (case f x of
        Inl e \<Rightarrow> Inl e
      | Inr y \<Rightarrow> (case series_apply f xs of Inl e \<Rightarrow> Inl e | Inr ys \<Rightarrow> Inr (y # ys)))"

text \<open>The lambda of \<open>compute_best_scores\<close>, applied to one guest's \<open>norm_name\<close>.\<close>

definition best_score :: "env \<Rightarrow> row list \<Rightarrow> pystr \<Rightarrow> error + int" where
  "best_score E contacts_df n =
     (if n \<noteq> []
      then (case series_max (map (\<lambda>c. full_score E n (norm_name c)) contacts_df) of
              None \<Rightarrow> Inl ValueError
            | Some m \<Rightarrow> Inr (py_int m))
      else Inr 0)"

definition compute_best_scores :: "env \<Rightarrow> row list \<Rightarrow> row list \<Rightarrow> error + int list" where
  "compute_best_scores E guests_df contacts_df =
     series_apply (\<lambda>g. best_score E contacts_df (norm_name g)) guests_df"

section \<open>The specification's wording of two operations\<close>

text \<open>
  The specification describes per-token cleaning as an else-if chain: a noise suffix is
  dropped; else a leading connective letter is dropped; else a trailing vowel letter is
  dropped.
\<close>

definition spec_clean_token :: "pystr \<Rightarrow> pystr" where
  "spec_clean_token tok =
     (if tok \<in> SUFFIX_TOKENS then []
      else if startswith tok (str ''v'') \<and> length tok > 2 then drop 1 tok
      else if length tok \<ge> 4 \<and> endswith tok (str ''i'') then butlast tok
      else tok)"




section \<open>A reference environment\<close>

text \<open>
  To evaluate the model on concrete names the parameters need values. The reference
  environment takes them from the documentation of the libraries: lower-casing of ASCII
  letters; the \<open>unidecode\<close> table restricted to the one entry used below, U+5317, whose
  transliteration is \<open>"Bei "\<close> (a code point without an entry is dropped, as \<open>unidecode\<close>
  does); the normalized Levenshtein similarity \<open>1 - distance / max(len)\<close>; \<open>fuzz.ratio\<close>
  as the normalized indel similarity \<open>100 * (1 - (len1 + len2 - 2 * lcs) / (len1 + len2))\<close>;
  \<open>fuzz.token_set_ratio\<close> on the sets of words, \<open>100\<close> when the words of one side include
  the words of the other; \<open>fuzz.partial_ratio\<close> as the best \<open>fuzz.ratio\<close> of the shorter
  string against the windows of the longer one; the weighted score rounded in exact
  arithmetic.
  The general theorems hold for every environment. The evaluations at concrete names use
  these reference values: the transliteration of U+5317, the Levenshtein similarity
  \<open>11 / 12\<close> of two words of twelve letters that differ in one, \<open>fuzz.ratio\<close> of a word
  with itself, \<open>fuzz.token_set_ratio\<close> of two names where the words of one are among
  the words of the other, and the rounding of the exact scores \<open>120\<close> and \<open>0\<close>, which the
  double arithmetic rounds to the same integers.
\<close>

definition ref_lower :: "pystr \<Rightarrow> pystr" where
  "ref_lower s = map ascii_lower s"

definition ref_table :: "nat \<Rightarrow> pystr" where
  "ref_table c = (if c = 21271 then str ''Bei '' else [])"

fun lcs :: "pystr \<Rightarrow> pystr \<Rightarrow> nat" where
  "lcs [] ys = 0"
| "lcs xs [] = 0"
| "lcs (x # xs) (y # ys) =
     (if x = y then lcs xs ys + 1 else max (lcs xs (y # ys)) (lcs (x # xs) ys))"

text \<open>One row of the Levenshtein table from the row above it.\<close>

fun lev_row :: "nat \<Rightarrow> pystr \<Rightarrow> nat list \<Rightarrow> nat \<Rightarrow> nat list" where
  "lev_row x (y # ys) (diag # up # prev) left =
     (let v = min (min (up + 1) (left + 1)) (diag + (if x = y then 0 else 1))
      in v # lev_row x ys (up # prev) v)"
| "lev_row x ys prev left = []"

definition levenshtein :: "pystr \<Rightarrow> pystr \<Rightarrow> nat" where
  "levenshtein a b =
     last (fold (\<lambda>x prev. (hd prev + 1) # lev_row x b prev (hd prev + 1)) a
                [0..<Suc (length b)])"

definition ref_normalized_similarity :: "pystr \<Rightarrow> pystr \<Rightarrow> rat" where
  "ref_normalized_similarity a b =
     (if a = [] \<and> b = [] then 1
      else 1 - of_nat (levenshtein a b) / of_nat (max (length a) (length b)))"

definition norm_sim :: "nat \<Rightarrow> nat \<Rightarrow> rat" where
  "norm_sim d lensum = (if lensum = 0 then 100 else 100 - 100 * of_nat d / of_nat lensum)"

definition indel_distance :: "pystr \<Rightarrow> pystr \<Rightarrow> nat" where
  "indel_distance a b = length a + length b - 2 * lcs a b"

definition ref_ratio :: "pystr \<Rightarrow> pystr \<Rightarrow> rat" where
  "ref_ratio a b = norm_sim (indel_distance a b) (length a + length b)"

definition py_split :: "pystr \<Rightarrow> pystr list" where
  "py_split s = filter (\<lambda>t. t \<noteq> []) (re_split_space s)"

definition ref_token_set_ratio :: "pystr \<Rightarrow> pystr \<Rightarrow> rat" where
  "ref_token_set_ratio s1 s2 =
     (let tokens_a = remdups (py_split s1); tokens_b = remdups (py_split s2)
      in if tokens_a = [] \<or> tokens_b = [] then 0
         else let intersect = filter (\<lambda>t. t \<in> set tokens_b) tokens_a;
                  diff_ab = sort (filter (\<lambda>t. t \<notin> set tokens_b) tokens_a);
                  diff_ba = sort (filter (\<lambda>t. t \<notin> set tokens_a) tokens_b)
           in if intersect \<noteq> [] \<and> (diff_ab = [] \<or> diff_ba = []) then 100
              else let ab = py_join (str '' '') diff_ab;
                       ba = py_join (str '' '') diff_ba;
                       sect_len = length (py_join (str '' '') intersect);
                       sep = (if sect_len \<noteq> 0 then 1 else 0);
                       sect_ab_len = sect_len + sep + length ab;
                       sect_ba_len = sect_len + sep + length ba;
                       result = norm_sim (indel_distance ab ba) (sect_ab_len + sect_ba_len)
                in if sect_len = 0 then result
                   else max result
                          (max (norm_sim (sep + length ab) (sect_len + sect_ab_len))
                               (norm_sim (sep + length ba) (sect_len + sect_ba_len))))"

definition windows :: "nat \<Rightarrow> pystr \<Rightarrow> pystr list" where
  "windows n s =
     map (\<lambda>i. take i s) [1..<n]
     @ map (\<lambda>i. take n (drop i s)) [0..<Suc (length s - n)]
     @ map (\<lambda>i. drop i s) [Suc (length s - n)..<length s]"

definition best_window :: "pystr \<Rightarrow> pystr \<Rightarrow> rat" where
  "best_window s l = fold max (map (ref_ratio s) (windows (length s) l)) 0"

definition ref_partial_ratio :: "pystr \<Rightarrow> pystr \<Rightarrow> rat" where
  "ref_partial_ratio a b =
     (if a = [] \<and> b = [] then 100
      else if a = [] \<or> b = [] then 0
      else if length a < length b then best_window a b
      else if length b < length a then best_window b a
      else max (best_window a b) (best_window b a))"

text \<open>
  The weighted score in exact arithmetic, and its rounding to the nearest integer. The
  double that the code computes differs from the exact score by a rounding error, so the
  two roundings can differ only where the exact score is a half-integer (up to that error).
\<close>

definition exact_score :: "rat \<Rightarrow> rat \<Rightarrow> rat \<Rightarrow> rat \<Rightarrow> rat" where
  "exact_score tr fr jr penalty = (6 / 10 * tr + 2 / 10 * fr + 2 / 10 * jr) * penalty * 100"

text \<open>
  What double arithmetic guarantees of \<open>round_score\<close>: for signals that are not negative,
  the integer is within \<open>1 / 2\<close> of the double, and the relative error of the double
  against the exact score is far below \<open>1 / 2 ^ 40\<close>.
\<close>

definition round_score_ok :: "env \<Rightarrow> bool" where
  "round_score_ok E =
     (\<forall>tr fr jr penalty. 0 \<le> tr \<and> 0 \<le> fr \<and> 0 \<le> jr \<and> 0 \<le> penalty \<longrightarrow>
        \<bar>of_int (round_score E tr fr jr penalty) - exact_score tr fr jr penalty\<bar>
          \<le> 1 / 2 + exact_score tr fr jr penalty / 2 ^ 40)"

definition ref_round_score :: "rat \<Rightarrow> rat \<Rightarrow> rat \<Rightarrow> rat \<Rightarrow> int" where
  "ref_round_score tr fr jr penalty = py_round (exact_score tr fr jr penalty)"

definition ref_env :: env where
  "ref_env = \<lparr>str_lower = ref_lower, unidecode_table = ref_table,
     partial_ratio = ref_partial_ratio, token_set_ratio = ref_token_set_ratio,
     ratio = ref_ratio, normalized_similarity = ref_normalized_similarity,
     round_score = ref_round_score\<rparr>"

section \<open>Auxiliary notions\<close>

text \<open>
  A string is \<open>spaced\<close> when each of its whitespace characters is a single space that is
  not followed by another whitespace character.
\<close>

fun spaced :: "pystr \<Rightarrow> bool" where
  "spaced [] = True"
| "spaced (c # cs) =
     (if is_space c then c = 32 \<and> (cs = [] \<or> \<not> is_space (hd cs)) \<and> spaced cs else spaced cs)"

section \<open>Example data\<close>

text \<open>A contact whose name normalizes to \<open>"dan"\<close>, with the given phone number.\<close>

definition dan :: "pystr \<Rightarrow> row" where
  "dan p = \<lparr>full_name = str ''Dan'', phone = p, norm_name = str ''dan''\<rparr>"

text \<open>A contact whose name normalizes to \<open>"xyz"\<close>.\<close>

definition xyz :: row where
  "xyz = \<lparr>full_name = str ''Xyz'', phone = str ''0521234567'', norm_name = str ''xyz''\<rparr>"

section \<open>Evaluation lemmas\<close>

lemma str_simps [simp]: "str [] = []" "str (c # cs) = of_char c # str cs"
  by (simp_all add: str_def)

lemma is_space_32 [simp]: "is_space 32"
  by (simp add: is_space_def)

lemma not_space_letter [simp]: "97 \<le> c \<Longrightarrow> c \<le> 122 \<Longrightarrow> \<not> is_space c"
  by (simp add: is_space_def)

lemmas token_defs = tokens_def clean_token_def SUFFIX_TOKENS_def GENERIC_TOKENS_def
  startswith_def endswith_def

section \<open>The scorer\<close>

text \<open>
  C9. Degenerate inputs give degenerate outputs and raise nothing: \<open>full_score\<close> is \<open>0\<close>
  when either argument is the empty string, and \<open>top_matches\<close> returns a table without
  rows when the guest's normalized name is empty, whatever the contact table is.
\<close>

theorem degenerate_inputs:
  "full_score E [] c = 0 \<and> full_score E g [] = 0 \<and> top_matches E [] contacts_df = Inr []"
  by (simp add: full_score_def top_matches_def)

text \<open>
  C7. \<open>full_score\<close> is exactly \<open>100\<close> when its two non-empty arguments are equal after
  trimming or have the same sequence of cleaned tokens; in particular a non-empty name
  scores \<open>100\<close> against itself. This holds for every library environment.
\<close>

theorem full_score_auto_match:
  "(g \<noteq> [] \<and> c \<noteq> [] \<and> (strip g = strip c \<or> tokens g = tokens c) \<longrightarrow> full_score E g c = 100)
   \<and> (n \<noteq> [] \<longrightarrow> full_score E n n = 100)"
  by (simp add: full_score_def AUTO_SCORE_def Let_def)

theorem full_score_auto_match_witness:
  "str ''yossi cohen mil'' \<noteq> [] \<and> str ''yossi cohen'' \<noteq> []
   \<and> tokens (str ''yossi cohen mil'') = tokens (str ''yossi cohen'')
   \<and> full_score ref_env (str ''yossi cohen mil'') (str ''yossi cohen'') = 100
   \<and> str ''dan'' \<noteq> [] \<and> full_score ref_env (str ''dan'') (str ''dan'') = 100"
proof -
  have t: "tokens (str ''yossi cohen mil'') = tokens (str ''yossi cohen'')"
    by (simp add: token_defs)
  have n: "str ''yossi cohen mil'' \<noteq> []" "str ''yossi cohen'' \<noteq> []" "str ''dan'' \<noteq> []"
    by simp_all
  show ?thesis
    using full_score_auto_match [of "str ''yossi cohen mil''" "str ''yossi cohen''" ref_env "str ''dan''"] t n
    by blast
qed

text \<open>
  When exactly one of the two names has no token left, the score is the value that
  \<open>fuzz.partial_ratio\<close> returns, unrounded.
\<close>

lemma full_score_fallback:
  "g \<noteq> [] \<Longrightarrow> c \<noteq> [] \<Longrightarrow> strip g \<noteq> strip c \<Longrightarrow> tokens g \<noteq> tokens c
   \<Longrightarrow> tokens g = [] \<or> tokens c = []
   \<Longrightarrow> full_score E g c = partial_ratio E g c"
  by (simp add: full_score_def Let_def)

text \<open>The steps of the evaluation of a score above \<open>100\<close>.\<close>

lemma konstantinos_tokens:
  "tokens (str ''konstantinos konstantinos'') = [str ''konstantinos'', str ''konstantinos'']"
  "tokens (str ''konstantinos konstantinou'') = [str ''konstantinos'', str ''konstantinou'']"
  by (simp_all add: token_defs)

lemma konstantinos_levenshtein:
  "levenshtein (str ''konstantinos'') (str ''konstantinou'') = 1"
  by (simp add: levenshtein_def Let_def)

lemma konstantinos_similarity:
  "ref_normalized_similarity (str ''konstantinos'') (str ''konstantinou'') = 11 / 12"
  unfolding ref_normalized_similarity_def konstantinos_levenshtein by simp

lemma konstantinos_jaccard:
  "fuzzy_jaccard ref_env [str ''konstantinos'', str ''konstantinos'']
     [str ''konstantinos'', str ''konstantinou''] = 2"
  using konstantinos_similarity
  by (simp add: fuzzy_jaccard_def jaccard_union_def fuzzy_eq_def ref_env_def)

lemma konstantinos_ratio: "ref_ratio (str ''konstantinos'') (str ''konstantinos'') = 100"
  by (simp add: ref_ratio_def norm_sim_def indel_distance_def)

lemma konstantinos_token_set_ratio:
  "ref_token_set_ratio (str ''konstantinos konstantinos'') (str ''konstantinos konstantinou'') = 100"
  by (simp add: ref_token_set_ratio_def py_split_def Let_def)

lemma py_round_near: "\<bar>of_int (py_round x) - x\<bar> \<le> 1 / 2"
proof -
  define f where "f = \<lfloor>x\<rfloor>"
  have 1: "of_int f \<le> x" "x < of_int f + 1"
    unfolding f_def by linarith+
  have 2: "py_round x = f \<or> py_round x = f + 1"
    by (simp add: py_round_def Let_def f_def)
  have 3: "py_round x = f \<Longrightarrow> x - of_int f \<le> 1 / 2"
    by (simp add: py_round_def Let_def f_def split: if_splits)
  have 4: "py_round x = f + 1 \<Longrightarrow> 1 / 2 \<le> x - of_int f"
    by (simp add: py_round_def Let_def f_def split: if_splits)
  from 2 show ?thesis
  proof
    assume r: "py_round x = f"
    with 1 3 show ?thesis by (simp add: abs_le_iff)
  next
    assume r: "py_round x = f + 1"
    with 1 4 show ?thesis by (simp add: abs_le_iff)
  qed
qed

lemma ref_round_score_ok: "round_score_ok ref_env"
  unfolding round_score_ok_def
proof (intro allI impI)
  fix tr fr jr penalty :: rat
  assume a: "0 \<le> tr \<and> 0 \<le> fr \<and> 0 \<le> jr \<and> 0 \<le> penalty"
  then have e: "0 \<le> exact_score tr fr jr penalty"
    by (simp add: exact_score_def)
  have "\<bar>of_int (py_round (exact_score tr fr jr penalty)) - exact_score tr fr jr penalty\<bar> \<le> 1 / 2"
    by (rule py_round_near)
  also have "\<dots> \<le> 1 / 2 + exact_score tr fr jr penalty / 2 ^ 40"
    using e by simp
  finally show "\<bar>of_int (round_score ref_env tr fr jr penalty) - exact_score tr fr jr penalty\<bar>
      \<le> 1 / 2 + exact_score tr fr jr penalty / 2 ^ 40"
    by (simp add: ref_env_def ref_round_score_def)
qed

lemma ref_round_score_120: "ref_round_score 1 1 2 1 = 120"
  by (simp add: ref_round_score_def exact_score_def py_round_def)

text \<open>
  C1. The score is meant to lie between \<open>0\<close> and \<open>100\<close>: the docstring of \<open>full_score\<close>
  says so. When the guest name repeats a token, \<open>_fuzzy_jaccard\<close> counts one match per
  occurrence but sizes the union by distinct tokens, so the Jaccard signal is \<open>2\<close> for
  the names below and the score is \<open>120\<close>.
\<close>

theorem full_score_exceeds_100:
  "full_score ref_env (str ''konstantinos konstantinos'') (str ''konstantinos konstantinou'') = 120"
proof -
  have j: "py_join (str '' '') [str ''konstantinos'', str ''konstantinos'']
             = str ''konstantinos konstantinos''"
    "py_join (str '' '') [str ''konstantinos'', str ''konstantinou'']
             = str ''konstantinos konstantinou''"
    by simp_all
  have s: "strip (str ''konstantinos konstantinos'') \<noteq> strip (str ''konstantinos konstantinou'')"
    by (simp add: strip_def)
  have ne: "str ''konstantinos konstantinos'' \<noteq> []" "str ''konstantinos konstantinou'' \<noteq> []"
    by simp_all
  have t: "[str ''konstantinos'', str ''konstantinos''] \<noteq> [str ''konstantinos'', str ''konstantinou'']"
    by simp
  show ?thesis
    unfolding full_score_def konstantinos_tokens Let_def j konstantinos_jaccard
    using s ne t konstantinos_token_set_ratio konstantinos_ratio ref_round_score_120
    by (simp add: ref_env_def)
qed

section \<open>The tokenizer\<close>

text \<open>
  C6, as the specification words it: the three cleaning steps form an else-if chain, so
  no token loses both its leading and its trailing letter. The code disagrees on
  \<open>"vardi"\<close>, which it cleans to \<open>"ard"\<close>.
\<close>

theorem clean_token_counterexample:
  "clean_token (str ''vardi'') \<noteq> spec_clean_token (str ''vardi'')"
  by (simp add: token_defs spec_clean_token_def)

lemma endswith_drop1: "2 \<le> length tok \<Longrightarrow> endswith (drop 1 tok) [c] = endswith tok [c]"
  by (auto simp: endswith_def Suc_diff_Suc numeral_2_eq_2)

text \<open>
  C6, amended. The second and third step are both applied, as the docstring of
  \<open>_clean_token\<close> says: a token outside the noise-suffix set that starts with \<open>v\<close>, ends
  with \<open>i\<close> and has at least five letters loses both letters; on every other token the
  result is that of the else-if chain.
\<close>

theorem clean_token_both_affixes:
  "clean_token tok =
     (if tok \<notin> SUFFIX_TOKENS \<and> startswith tok (str ''v'') \<and> 5 \<le> length tok
         \<and> endswith tok (str ''i'')
      then butlast (drop 1 tok) else spec_clean_token tok)"
proof (cases "startswith tok (str ''v'') \<and> 2 < length tok")
  case True
  then have "endswith (drop 1 tok) (str ''i'') = endswith tok (str ''i'')"
    using endswith_drop1 [of tok 105] by simp
  with True show ?thesis
    by (auto simp: clean_token_def spec_clean_token_def Let_def)
next
  case False
  then show ?thesis
    by (auto simp: clean_token_def spec_clean_token_def Let_def)
qed

theorem clean_token_both_affixes_witness:
  "clean_token (str ''vardi'') = butlast (drop 1 (str ''vardi''))
   \<and> clean_token (str ''vardi'') = str ''ard''"
  using clean_token_both_affixes [of "str ''vardi''"]
  by (simp add: SUFFIX_TOKENS_def startswith_def endswith_def)

section \<open>The candidate selector\<close>

lemma series_max_Max: "xs \<noteq> [] \<Longrightarrow> series_max xs = Some (Max (set xs))"
proof (cases xs)
  case Nil
  assume "xs \<noteq> []"
  with Nil show ?thesis by simp
next
  case (Cons a list)
  then show ?thesis using Max.set_eq_fold [of a list] by simp
qed

lemma sort_values_Nil [simp]: "sort_values xs = [] \<longleftrightarrow> xs = []"
proof -
  have "length (sort_values xs) = length xs" by (simp add: sort_values_def)
  then show ?thesis by (metis length_0_conv)
qed

lemma candidates_project:
  "map (\<lambda>c. (contact c, score c)) (map (\<lambda>(r, s). \<lparr>contact = r, score = s, reason = f r s\<rparr>) xs) = xs"
  by (induction xs) auto

lemma take3_sort_empty: "take 3 (sort_values xs) = [] \<longleftrightarrow> xs = []"
  by simp

lemma top_matches_eq:
  assumes "guest \<noteq> []" "contacts_df \<noteq> []"
  shows "top_matches E guest contacts_df =
    (if at_least
          (if of_int (py_int (Max (snd ` set (scored E guest contacts_df)))) = (100::rat) then 90
           else if at_least 70 (scored E guest contacts_df) \<noteq> [] then 70 else 50)
          (scored E guest contacts_df) = []
     then Inl ValueError
     else Inr (map (\<lambda>(r, s). \<lparr>contact = r, score = s,
                 reason = reason_for guest (norm_name r) (py_int s)\<rparr>)
          (take 3 (sort_values (at_least
             (if of_int (py_int (Max (snd ` set (scored E guest contacts_df)))) = (100::rat) then 90
              else if at_least 70 (scored E guest contacts_df) \<noteq> [] then 70 else 50)
             (scored E guest contacts_df))))))"
proof -
  have ne: "map snd (scored E guest contacts_df) \<noteq> []"
    using assms by (simp add: scored_def)
  show ?thesis
    using assms series_max_Max [OF ne]
    by (simp add: top_matches_def Let_def AUTO_SCORE_def MIN_SCORE_DISPLAY_def take3_sort_empty)
qed

lemma top_matches_empty_table: "guest \<noteq> [] \<Longrightarrow> top_matches E guest [] = Inl ValueError"
  by (simp add: top_matches_def scored_def)

lemma full_score_int_or_partial:
  "full_score E g c \<in> \<int> \<or> full_score E g c = partial_ratio E g c"
  by (simp add: full_score_def Let_def AUTO_SCORE_def)

lemma py_int_100: 
  assumes "m \<in> \<int> \<or> m \<le> 100"
  shows "(of_int (py_int m) = (100::rat)) = (m = 100)"
proof
  assume a: "of_int (py_int m) = (100::rat)"
  then have p: "py_int m = 100" by linarith
  from assms show "m = 100"
  proof
    assume "m \<in> \<int>"
    then obtain k where k: "m = of_int k" by (auto elim: Ints_cases)
    with p show ?thesis by (simp add: py_int_def split: if_splits)
  next
    assume le: "m \<le> 100"
    from p have "100 \<le> m" by (simp add: py_int_def split: if_splits; linarith)
    with le show ?thesis by simp
  qed
next
  assume "m = 100" then show "of_int (py_int m) = (100::rat)" by (simp add: py_int_def)
qed

lemma best_in_scores:
  assumes "contacts_df \<noteq> []"
  shows "Max (snd ` set (scored E guest contacts_df)) \<in> snd ` set (scored E guest contacts_df)"
  using assms by (intro Max_in) (auto simp: scored_def)

lemma best_int_or_le:
  assumes "partial_ratio_ok E" "contacts_df \<noteq> []"
  shows "Max (snd ` set (scored E guest contacts_df)) \<in> \<int>
         \<or> Max (snd ` set (scored E guest contacts_df)) \<le> 100"
proof -
  obtain r :: row
    where "Max (snd ` set (scored E guest contacts_df)) = full_score E guest (norm_name r)"
    using best_in_scores [OF assms(2), of E guest] by (auto simp: scored_def)
  then show ?thesis
    using full_score_int_or_partial [of E guest "norm_name r"] assms(1)
    by (auto simp: partial_ratio_ok_def)
qed

lemma sort_values_sorted:
  "sorted_wrt (\<lambda>a b. snd a > snd b \<or> (snd a = snd b \<and> full_name (fst a) \<le> full_name (fst b)))
     (sort_values df)"
proof -
  have "sorted (map (\<lambda>(r, s). (- s, full_name r)) (sort_values df))"
    unfolding sort_values_def by (rule sorted_sort_key)
  then have "sorted_wrt (\<lambda>a b. (case a of (r, s) \<Rightarrow> (- s, full_name r)) \<le> (case b of (r, s) \<Rightarrow> (- s, full_name r))) (sort_values df)"
    by (simp add: sorted_map)
  then show ?thesis
    by (rule sorted_wrt_mono_rel [rotated]) (auto simp: less_eq_prod_def split: prod.splits)
qed


lemma at_least_Nil: "at_least th df = [] \<longleftrightarrow> \<not> (\<exists>(r, s)\<in>set df. th \<le> s)"
  by (auto simp: at_least_def filter_empty_conv)

lemma at_least_set: "p \<in> set (take n (sort_values (at_least th df))) \<Longrightarrow> th \<le> snd p \<and> p \<in> set df"
proof -
  assume "p \<in> set (take n (sort_values (at_least th df)))"
  then have "p \<in> set (sort_values (at_least th df))"
    by (rule in_set_takeD)
  then show ?thesis
    by (auto simp: sort_values_def at_least_def)
qed

lemma dan_scored:
  "scored ref_env (str ''dan'') [dan a, dan b, dan c, dan d]
     = [(dan a, 100), (dan b, 100), (dan c, 100), (dan d, 100)]"
  by (simp add: scored_def full_score_def dan_def AUTO_SCORE_def)

text \<open>The name \<open>"xyz"\<close> shares no letter with \<open>"dan"\<close>: every signal is \<open>0\<close>.\<close>

lemma dan_xyz_score: "full_score ref_env (str ''dan'') (str ''xyz'') = 0"
proof -
  have t: "tokens (str ''dan'') = [str ''dan'']" "tokens (str ''xyz'') = [str ''xyz'']"
    by (simp_all add: token_defs)
  have tr: "ref_token_set_ratio (str ''dan'') (str ''xyz'') = 0"
    by (simp add: ref_token_set_ratio_def py_split_def Let_def norm_sim_def indel_distance_def)
  have fr: "ref_ratio (str ''dan'') (str ''xyz'') = 0"
    by (simp add: ref_ratio_def norm_sim_def indel_distance_def)
  have lev: "levenshtein (str ''dan'') (str ''xyz'') = 3"
    by (simp add: levenshtein_def Let_def)
  have sim: "ref_normalized_similarity (str ''dan'') (str ''xyz'') = 0"
    unfolding ref_normalized_similarity_def lev by simp
  have jr: "fuzzy_jaccard ref_env [str ''dan''] [str ''xyz''] = 0"
    using sim by (simp add: fuzzy_jaccard_def jaccard_union_def fuzzy_eq_def ref_env_def)
  have r: "ref_round_score 0 0 0 1 = 0"
    by (simp add: ref_round_score_def exact_score_def py_round_def)
  have s: "strip (str ''dan'') \<noteq> strip (str ''xyz'')"
    by (simp add: strip_def)
  show ?thesis
    unfolding full_score_def t Let_def jr
    using s tr fr r by (simp add: ref_env_def)
qed

text \<open>The reference \<open>partial_ratio\<close> meets the contract of the library: its values are in \<open>[0, 100]\<close>.\<close>

lemma fold_max_bounds:
  fixes a :: rat
  shows "\<forall>x\<in>set xs. 0 \<le> x \<and> x \<le> 100 \<Longrightarrow> 0 \<le> a \<and> a \<le> 100
    \<Longrightarrow> 0 \<le> fold max xs a \<and> fold max xs a \<le> 100"
  by (induction xs arbitrary: a) (auto simp: max_def)

lemma norm_sim_bounds: "d \<le> n \<Longrightarrow> 0 \<le> norm_sim d n \<and> norm_sim d n \<le> 100"
  by (auto simp: norm_sim_def field_simps)

lemma ref_ratio_bounds: "0 \<le> ref_ratio a b \<and> ref_ratio a b \<le> 100"
  unfolding ref_ratio_def by (rule norm_sim_bounds) (simp add: indel_distance_def)

lemma best_window_bounds: "0 \<le> best_window s l \<and> best_window s l \<le> 100"
  unfolding best_window_def by (rule fold_max_bounds) (auto simp: ref_ratio_bounds)

lemma ref_partial_ratio_ok: "partial_ratio_ok ref_env"
  using best_window_bounds
  by (auto simp: partial_ratio_ok_def ref_env_def ref_partial_ratio_def max_def)

text \<open>
  C2, as the specification words it: the core returns every qualifying contact and
  applies no cap. With four contacts that all score \<open>100\<close>, four qualify under the
  threshold \<open>90\<close> and \<open>top_matches\<close> returns three.
\<close>

theorem top_matches_cap_counterexample:
  "length (at_least 90 (scored ref_env (str ''dan'')
       [dan (str ''1''), dan (str ''2''), dan (str ''3''), dan (str ''4'')])) = 4
   \<and> (case top_matches ref_env (str ''dan'')
              [dan (str ''1''), dan (str ''2''), dan (str ''3''), dan (str ''4'')] of
        Inl e \<Rightarrow> False | Inr res \<Rightarrow> length res = 3)"
  unfolding top_matches_def dan_scored Let_def
  by (simp add: at_least_def sort_values_def AUTO_SCORE_def py_int_def)

text \<open>
  C2, amended. For a non-empty guest name and a contact table in which some contact
  scores at least \<open>50\<close>, when \<open>fuzz.partial_ratio\<close> returns values in \<open>[0, 100]\<close>:
  \<open>top_matches\<close> returns the first three, in sorted order, of the contacts that reach the
  active threshold (all of them when fewer than three do). The threshold is \<open>90\<close> if the
  best score is \<open>100\<close>, else \<open>70\<close> if some contact scores at least \<open>70\<close>, else \<open>50\<close>;
  the order is by descending score and, at equal score, ascending name. The cap of three
  is applied by the core, as its docstring says.
\<close>

theorem top_matches_capped:
  assumes "partial_ratio_ok E" and "guest \<noteq> []"
    and "\<exists>r\<in>set contacts_df. 50 \<le> full_score E guest (norm_name r)"
  shows "\<exists>res. top_matches E guest contacts_df = Inr res \<and>
    (let df = map (\<lambda>r. (r, full_score E guest (norm_name r))) contacts_df;
         best = Max (snd ` set df);
         th = (if best = 100 then 90 else if (\<exists>(r, s)\<in>set df. 70 \<le> s) then 70 else 50);
         qualifying = filter (\<lambda>(r, s). th \<le> s) df
     in map (\<lambda>c. (contact c, score c)) res
          = take 3 (sort_key (\<lambda>(r, s). (- s, full_name r)) qualifying)
        \<and> length res = min 3 (length qualifying)
        \<and> sorted_wrt (\<lambda>a b. score b < score a
              \<or> (score a = score b \<and> full_name (contact a) \<le> full_name (contact b))) res)"
proof -
  let ?df = "scored E guest contacts_df"
  let ?best = "Max (snd ` set ?df)"
  let ?th = "if ?best = 100 then 90 else if (\<exists>(r, s)\<in>set ?df. 70 \<le> s) then 70 else (50::rat)"
  let ?mk = "\<lambda>(r, s). \<lparr>contact = r, score = s,
                     reason = reason_for guest (norm_name r) (py_int s)\<rparr>"
  let ?q = "at_least ?th ?df"
  let ?sel = "take 3 (sort_values ?q)"
  from assms(3) have ne: "contacts_df \<noteq> []" by auto
  have b: "(of_int (py_int ?best) = (100::rat)) = (?best = 100)"
    by (rule py_int_100 [OF best_int_or_le [OF assms(1) ne]])
  have reach: "\<exists>(r, s)\<in>set ?df. ?th \<le> s"
  proof (cases "?best = 100")
    case True
    have "?best \<in> snd ` set ?df" by (rule best_in_scores [OF ne])
    then obtain p where p: "p \<in> set ?df" "snd p = ?best" by auto
    with True have "case p of (r, s) \<Rightarrow> ?th \<le> s" by (cases p) simp
    with p(1) show ?thesis by (rule rev_bexI)
  next
    case False
    show ?thesis
    proof (cases "\<exists>(r, s)\<in>set ?df. 70 \<le> s")
      case True
      with False show ?thesis by simp
    next
      case no70: False
      from assms(3) obtain r where "r \<in> set contacts_df" "50 \<le> full_score E guest (norm_name r)"
        by blast
      then have "(r, full_score E guest (norm_name r)) \<in> set ?df"
        by (auto simp: scored_def)
      with \<open>50 \<le> full_score E guest (norm_name r)\<close> False no70 show ?thesis by auto
    qed
  qed
  then have q: "?q \<noteq> []" by (simp only: at_least_Nil not_not)
  have th: "(if of_int (py_int ?best) = (100::rat) then 90
             else if at_least 70 ?df \<noteq> [] then 70 else 50) = ?th"
    using b by (simp add: at_least_Nil)
  have 1: "top_matches E guest contacts_df = Inr (map ?mk ?sel)"
    using top_matches_eq [OF assms(2) ne, of E, unfolded th] q
    by (simp only: if_False)
  have 2: "map (\<lambda>c. (contact c, score c)) (map ?mk ?sel) = ?sel"
    by (rule candidates_project)
  have 3: "length (map ?mk ?sel) = min 3 (length ?q)"
    by (simp add: sort_values_def)
  have "sorted_wrt (\<lambda>a b. snd a > snd b \<or> (snd a = snd b \<and> full_name (fst a) \<le> full_name (fst b))) ?sel"
    using sort_values_sorted by (rule sorted_wrt_take)
  then have 4: "sorted_wrt (\<lambda>a b. score b < score a
              \<or> (score a = score b \<and> full_name (contact a) \<le> full_name (contact b))) (map ?mk ?sel)"
    by (simp add: sorted_wrt_map case_prod_unfold)
  show ?thesis
    using 1 2 3 4 unfolding Let_def scored_def at_least_def sort_values_def by blast
qed

theorem top_matches_capped_witness:
  "partial_ratio_ok ref_env \<and> str ''dan'' \<noteq> []
   \<and> (\<exists>r\<in>set [dan (str ''1''), dan (str ''2''), dan (str ''3''), dan (str ''4'')].
         50 \<le> full_score ref_env (str ''dan'') (norm_name r))
   \<and> (\<exists>res. top_matches ref_env (str ''dan'')
          [dan (str ''1''), dan (str ''2''), dan (str ''3''), dan (str ''4'')] = Inr res \<and>
    (let df = map (\<lambda>r. (r, full_score ref_env (str ''dan'') (norm_name r)))
                [dan (str ''1''), dan (str ''2''), dan (str ''3''), dan (str ''4'')];
         best = Max (snd ` set df);
         th = (if best = 100 then 90 else if (\<exists>(r, s)\<in>set df. 70 \<le> s) then 70 else 50);
         qualifying = filter (\<lambda>(r, s). th \<le> s) df
     in map (\<lambda>c. (contact c, score c)) res
          = take 3 (sort_key (\<lambda>(r, s). (- s, full_name r)) qualifying)
        \<and> length res = min 3 (length qualifying)
        \<and> sorted_wrt (\<lambda>a b. score b < score a
              \<or> (score a = score b \<and> full_name (contact a) \<le> full_name (contact b))) res))"
proof -
  have g: "str ''dan'' \<noteq> []" by simp
  have c: "\<exists>r\<in>set [dan (str ''1''), dan (str ''2''), dan (str ''3''), dan (str ''4'')].
         50 \<le> full_score ref_env (str ''dan'') (norm_name r)"
    by (simp add: dan_def full_score_def AUTO_SCORE_def)
  show ?thesis
    using top_matches_capped [OF ref_partial_ratio_ok g c] ref_partial_ratio_ok g c by blast
qed

text \<open>
  C8. The tier policy ends in an empty shortlist when no contact scores \<open>50\<close> or more,
  and it has nothing to select from when the contact table has no rows. In both cases
  \<open>top_matches\<close> produces no shortlist: it raises \<open>ValueError\<close>. The guest is \<open>"dan"\<close>;
  the only contact of the first table is \<open>"xyz"\<close>, whose score is \<open>0\<close>.
\<close>

theorem top_matches_empty_shortlist_raises:
  "top_matches ref_env (str ''dan'') [xyz] = Inl ValueError
   \<and> top_matches ref_env (str ''dan'') [] = Inl ValueError"
proof -
  have s: "scored ref_env (str ''dan'') [xyz] = [(xyz, 0)]"
    using dan_xyz_score by (simp add: scored_def xyz_def)
  have 1: "top_matches ref_env (str ''dan'') [xyz] = Inl ValueError"
    unfolding top_matches_def s Let_def
    by (simp add: at_least_def AUTO_SCORE_def MIN_SCORE_DISPLAY_def py_int_def)
  have 2: "top_matches ref_env (str ''dan'') [] = Inl ValueError"
    by (rule top_matches_empty_table) simp
  from 1 2 show ?thesis ..
qed

section \<open>The best-score aggregator\<close>

text \<open>On a table with rows the aggregator returns the truncated maximum of the scores.\<close>

lemma best_score_nonempty:
  "n \<noteq> [] \<Longrightarrow> contacts_df \<noteq> [] \<Longrightarrow>
   best_score E contacts_df n
     = Inr (py_int (Max ((\<lambda>c. full_score E n (norm_name c)) ` set contacts_df)))"
  using series_max_Max [of "map (\<lambda>c. full_score E n (norm_name c)) contacts_df"]
  by (simp add: best_score_def)

lemma best_score_empty_name: "best_score E contacts_df [] = Inr 0"
  by (simp add: best_score_def)

text \<open>
  C3. The aggregator should return \<open>0\<close> for an empty contact table. For a guest with a
  non-empty normalized name and a contact table without rows, \<open>Series.max()\<close> is \<open>NaN\<close>
  and \<open>int(NaN)\<close> raises \<open>ValueError\<close>: the call does not return.
\<close>

theorem best_scores_empty_table_raises:
  "compute_best_scores E [dan (str ''0501234567'')] [] = Inl ValueError"
  by (simp add: compute_best_scores_def best_score_def dan_def)

section \<open>The fuzzy Jaccard signal\<close>






lemma jaccard_loop_Nil [simp]: "jaccard_loop E [] cs st = st"
  by simp





section \<open>The normalizer\<close>



lemma set_re_sub_space: "set (re_sub_space P t) \<subseteq> {c \<in> set t. \<not> P c} \<union> {32}"
proof (induction P t rule: re_sub_space.induct)
  case (1 P)
  then show ?case by simp
next
  case (2 P c cs)
  show ?case
  proof (cases "P c")
    case True
    have "set (dropWhile P cs) \<subseteq> set cs" by (auto dest: set_dropWhileD)
    with True 2 show ?thesis by auto
  next
    case False
    with 2 show ?thesis by auto
  qed
qed

lemma re_sub_space_id: "\<forall>c\<in>set t. \<not> P c \<Longrightarrow> re_sub_space P t = t"
  by (induction t) auto

lemma hd_re_sub_space: "t \<noteq> [] \<Longrightarrow> \<not> P (hd t) \<Longrightarrow> re_sub_space P t \<noteq> [] \<and> hd (re_sub_space P t) = hd t"
  by (cases t) auto

lemma spaced_re_sub_space: "spaced (re_sub_space is_space t)"
proof (induction is_space t rule: re_sub_space.induct)
  case 1
  then show ?case by simp
next
  case (2 c cs)
  show ?case
  proof (cases "is_space c")
    case True
    let ?r = "dropWhile is_space cs"
    have "re_sub_space is_space ?r = [] \<or> \<not> is_space (hd (re_sub_space is_space ?r))"
    proof (cases "?r = []")
      case True
      then have "re_sub_space is_space ?r = []" by (simp only: re_sub_space.simps)
      then show ?thesis by (rule disjI1)
    next
      case False
      then have "\<not> is_space (hd ?r)" by (rule hd_dropWhile)
      with False show ?thesis using hd_re_sub_space [of ?r is_space] by simp
    qed
    with True 2 show ?thesis by simp
  next
    case False
    with 2 show ?thesis by simp
  qed
qed

lemma spaced_fixed: "spaced t \<Longrightarrow> re_sub_space is_space t = t"
proof (induction t)
  case Nil
  then show ?case by simp
next
  case (Cons c cs)
  show ?case
  proof (cases "is_space c")
    case True
    with Cons.prems have "c = 32" "cs = [] \<or> \<not> is_space (hd cs)" "spaced cs" by simp_all
    then have "dropWhile is_space cs = cs" by (cases cs) auto
    with True Cons \<open>c = 32\<close> \<open>spaced cs\<close> show ?thesis by simp
  next
    case False
    with Cons show ?thesis by simp
  qed
qed

lemma spaced_append: "spaced (xs @ ys) \<Longrightarrow> spaced xs \<and> spaced ys"
proof (induction xs)
  case Nil
  then show ?case by simp
next
  case (Cons c cs)
  then show ?case by (cases cs) (auto split: if_splits)
qed

lemma rstrip_parts: "rev (dropWhile P (rev w)) @ rev (takeWhile P (rev w)) = w"
proof -
  have "rev (dropWhile P (rev w)) @ rev (takeWhile P (rev w))
        = rev (takeWhile P (rev w) @ dropWhile P (rev w))"
    by (simp only: rev_append)
  also have "\<dots> = rev (rev w)" by (simp only: takeWhile_dropWhile_id)
  also have "\<dots> = w" by (simp only: rev_rev_ident)
  finally show ?thesis .
qed

lemma strip_infix: "\<exists>a b. t = a @ strip t @ b"
proof -
  define w where "w = dropWhile is_space t"
  have 1: "t = takeWhile is_space t @ w" by (simp add: w_def)
  have 2: "w = strip t @ rev (takeWhile is_space (rev w))"
    unfolding strip_def w_def [symmetric] by (rule rstrip_parts [symmetric])
  from 1 2 have "t = takeWhile is_space t @ strip t @ rev (takeWhile is_space (rev w))"
    by simp
  then show ?thesis by blast
qed

lemma set_strip: "set (strip t) \<subseteq> set t"
proof -
  obtain a b where "t = a @ strip t @ b" using strip_infix by blast
  then have "set t = set a \<union> set (strip t) \<union> set b" by (metis set_append sup_assoc)
  then show ?thesis by blast
qed

lemma spaced_strip: "spaced t \<Longrightarrow> spaced (strip t)"
proof -
  assume s: "spaced t"
  obtain a b where "t = a @ strip t @ b" using strip_infix by blast
  with s have "spaced (a @ strip t @ b)" by simp
  then show ?thesis using spaced_append by blast
qed

lemma dropWhile_id: "xs = [] \<or> \<not> P (hd xs) \<Longrightarrow> dropWhile P xs = xs"
  by (cases xs) auto

lemma strip_ends: "strip t \<noteq> [] \<Longrightarrow> \<not> is_space (hd (strip t)) \<and> \<not> is_space (last (strip t))"
proof -
  assume ne: "strip t \<noteq> []"
  define w where "w = dropWhile is_space t"
  define v where "v = dropWhile is_space (rev w)"
  have s: "strip t = rev v" by (simp only: strip_def w_def v_def)
  with ne have v: "v \<noteq> []" by simp
  then have l: "\<not> is_space (hd v)" unfolding v_def by (rule hd_dropWhile)
  have "rev v @ rev (takeWhile is_space (rev w)) = w"
    unfolding v_def by (rule rstrip_parts)
  then have hw: "hd w = hd (rev v)" and w: "w \<noteq> []"
    using v by (metis hd_append2 rev_is_Nil_conv, metis append_is_Nil_conv rev_is_Nil_conv)
  from w have "\<not> is_space (hd w)" unfolding w_def by (rule hd_dropWhile)
  with hw l s v show ?thesis by (simp add: last_rev)
qed

lemma strip_Nil: "strip [] = []"
  by (simp add: strip_def)

lemma strip_idem: "strip (strip t) = strip t"
proof (cases "strip t = []")
  case True
  then show ?thesis by (simp add: strip_Nil)
next
  case False
  from strip_ends [OF False] have h: "\<not> is_space (hd (strip t))" and l: "\<not> is_space (last (strip t))"
    by simp_all
  have 1: "dropWhile is_space (strip t) = strip t" using h by (intro dropWhile_id) simp
  have "\<not> is_space (hd (rev (strip t)))" using l False by (simp add: hd_rev)
  then have 2: "dropWhile is_space (rev (strip t)) = rev (strip t)" by (intro dropWhile_id) simp
  have "strip (strip t) = rev (dropWhile is_space (rev (dropWhile is_space (strip t))))"
    by (rule strip_def)
  also have "\<dots> = rev (dropWhile is_space (rev (strip t)))" by (simp only: 1)
  also have "\<dots> = rev (rev (strip t))" by (simp only: 2)
  finally show ?thesis by simp
qed

lemma unidecode_ascii_id: "ascii_only s \<Longrightarrow> unidecode E s = s"
  by (induction s) (auto simp: unidecode_def ascii_only_def)

lemma ascii_lower_idem: "ascii_lower (ascii_lower c) = ascii_lower c"
  by (simp add: ascii_lower_def)

lemma not_punc_32: "\<not> is_punc 32"
  by (simp add: is_punc_def)

lemma unidecode_ascii: "unidecode_ascii_ok E \<Longrightarrow> ascii_only (unidecode E s)"
  by (induction s) (auto simp: unidecode_def ascii_only_def unidecode_ascii_ok_def)

lemma ref_lower_ok: "lower_ascii_ok ref_env"
  by (simp add: lower_ascii_ok_def ref_env_def ref_lower_def)

lemma ref_table_ok: "unidecode_ascii_ok ref_env"
  by (simp add: unidecode_ascii_ok_def ref_env_def ref_table_def ascii_only_def)

lemmas normalize_defs = normalize_str_def ref_env_def ref_lower_def ascii_lower_def is_punc_def
  is_space_def strip_def unidecode_def ref_table_def

text \<open>
  C4, as the specification words it: \<open>normalize\<close> is idempotent on every input. The
  transliteration of U+5317 is \<open>"Bei "\<close>, with a capital and a trailing space, and a
  second pass turns it into \<open>"bei"\<close>.
\<close>

theorem normalize_idempotent_counterexample:
  "normalize_str ref_env (Some (normalize_str ref_env (Some [21271])))
   \<noteq> normalize_str ref_env (Some [21271])"
proof -
  have a: "normalize_str ref_env (Some [21271]) = str ''Bei ''"
    by (simp add: normalize_defs)
  have b: "normalize_str ref_env (Some (str ''Bei '')) = str ''bei''"
    by (simp add: normalize_defs)
  show ?thesis unfolding a b by simp
qed

lemma normalize_ascii_fixed:
  assumes ok: "lower_ascii_ok E" and a: "ascii_only s"
  shows "normalize_str E (Some (normalize_str E (Some s))) = normalize_str E (Some s)"
proof (cases "s = []")
  case True
  then show ?thesis by (simp add: normalize_str_def)
next
  case False
  let ?t1 = "map ascii_lower s"
  let ?t2 = "re_sub_space is_punc ?t1"
  let ?t3 = "re_sub_space is_space ?t2"
  let ?r = "strip ?t3"
  have low: "str_lower E s = ?t1" using ok a by (simp add: lower_ascii_ok_def)
  have s2: "set ?t2 \<subseteq> {c \<in> set ?t1. \<not> is_punc c} \<union> {32}" by (rule set_re_sub_space)
  have s3: "set ?t3 \<subseteq> set ?t2 \<union> {32}" using set_re_sub_space [of is_space ?t2] by auto
  have sr: "set ?r \<subseteq> set ?t3" by (rule set_strip)
  have chars: "\<forall>c\<in>set ?r. c < 128 \<and> ascii_lower c = c \<and> \<not> is_punc c"
  proof
    fix c assume "c \<in> set ?r"
    with sr s3 s2 have "c = 32 \<or> (c \<in> set ?t1 \<and> \<not> is_punc c)" by blast
    then show "c < 128 \<and> ascii_lower c = c \<and> \<not> is_punc c"
    proof
      assume "c = 32" then show ?thesis by (simp add: ascii_lower_def is_punc_def)
    next
      assume c: "c \<in> set ?t1 \<and> \<not> is_punc c"
      then obtain d where d: "d \<in> set s" "c = ascii_lower d" by auto
      with a have "d < 128" by (simp add: ascii_only_def list_all_iff)
      with d c show ?thesis by (auto simp: ascii_lower_def)
    qed
  qed
  then have ar: "ascii_only ?r" by (simp add: ascii_only_def list_all_iff)
  have first: "normalize_str E (Some s) = ?r"
    using False low unidecode_ascii_id [OF ar] by (simp add: normalize_str_def Let_def)
  have lr: "str_lower E ?r = ?r"
  proof -
    have "str_lower E ?r = map ascii_lower ?r" using ok ar by (simp add: lower_ascii_ok_def)
    also have "\<dots> = ?r" using chars by (simp add: map_idI)
    finally show ?thesis .
  qed
  have pr: "re_sub_space is_punc ?r = ?r" using chars by (intro re_sub_space_id) simp
  have "spaced ?r" by (intro spaced_strip spaced_re_sub_space)
  then have spr: "re_sub_space is_space ?r = ?r" by (rule spaced_fixed)
  have st: "strip ?r = ?r" by (rule strip_idem)
  have "normalize_str E (Some ?r) = ?r"
  proof (cases "?r = []")
    case True
    then show ?thesis by (simp add: normalize_str_def)
  next
    case False
    then show ?thesis
      unfolding normalize_str_def Let_def using lr pr spr st unidecode_ascii_id [OF ar] by simp
  qed
  with first show ?thesis by simp
qed

text \<open>
  C4, amended. \<open>normalize\<close> is idempotent on \<open>None\<close> and on every string of ASCII
  characters (on which \<open>str.lower\<close> folds the letters A to Z and \<open>unidecode\<close> changes
  nothing).
\<close>

theorem normalize_idempotent_ascii:
  assumes "lower_ascii_ok E" and "case x of None \<Rightarrow> True | Some s \<Rightarrow> ascii_only s"
  shows "normalize_str E (Some (normalize_str E x)) = normalize_str E x"
proof (cases x)
  case None
  then show ?thesis by (simp add: normalize_str_def)
next
  case (Some s)
  with assms show ?thesis by (simp add: normalize_ascii_fixed)
qed

theorem normalize_idempotent_ascii_witness:
  "lower_ascii_ok ref_env \<and> ascii_only (str ''  Dr. Yossi-Cohen  (home) '')
   \<and> normalize_str ref_env (Some (str ''  Dr. Yossi-Cohen  (home) '')) = str ''dr yossi cohen home''
   \<and> normalize_str ref_env (Some (normalize_str ref_env (Some (str ''  Dr. Yossi-Cohen  (home) ''))))
       = normalize_str ref_env (Some (str ''  Dr. Yossi-Cohen  (home) ''))"
proof -
  have a: "ascii_only (str ''  Dr. Yossi-Cohen  (home) '')"
    by (simp add: ascii_only_def)
  have v: "normalize_str ref_env (Some (str ''  Dr. Yossi-Cohen  (home) '')) = str ''dr yossi cohen home''"
    by (simp add: normalize_defs)
  show ?thesis
    using normalize_idempotent_ascii [OF ref_lower_ok, of "Some (str ''  Dr. Yossi-Cohen  (home) '')"]
      ref_lower_ok a v by simp
qed

text \<open>
  C10. When every entry of the \<open>unidecode\<close> table is ASCII, as the library guarantees,
  the result of \<open>normalize\<close> contains ASCII characters only, for every input.
\<close>

theorem normalize_ascii_only:
  assumes "unidecode_ascii_ok E"
  shows "ascii_only (normalize_str E x)"
proof (cases x)
  case None
  then show ?thesis by (simp add: normalize_str_def ascii_only_def)
next
  case (Some s)
  then show ?thesis
    using unidecode_ascii [OF assms] by (simp add: normalize_str_def Let_def ascii_only_def)
qed

theorem normalize_ascii_only_witness:
  "unidecode_ascii_ok ref_env \<and> ascii_only (normalize_str ref_env (Some [21271]))"
  using normalize_ascii_only [OF ref_table_ok, of "Some [21271]"] ref_table_ok by simp

end
